theory Spec2Isabelle
  imports Main "HOL-Library.AList"
begin

section \<open>Data model of \<open>DllBundlesControl.ts\<close> and \<open>interfaces\<close>\<close>

text \<open>
  A JavaScript \<open>Error\<close> is modelled by its message.  Every error the source creates itself
  is \<open>new Error(message)\<close>; the errors thrown by Node's module system (\<open>require\<close>,
  \<open>require.resolve\<close>) and by \<open>find-root\<close> are supplied by the environment below.
\<close>

datatype js_error = Error string

text \<open>\<open>interface DllPackageConfig { name: string; path: string }\<close>\<close>

record DllPackageConfig =
  pkg_name :: string
  pkg_path :: string

text \<open>An element of \<open>packages: Array<string | DllPackageConfig>\<close>.\<close>

datatype package_ref = PkgString string | PkgConfig DllPackageConfig

text \<open>\<open>interface DllBundleConfig { name: string; packages: ... }\<close>\<close>

record DllBundleConfig =
  bundle_name :: string
  packages :: "package_ref list"

text \<open>
  The two options \<open>DllBundlesControl\<close> reads.  \<open>ignorePackageError\<close> is an optional boolean
  that is only tested for truthiness, so an absent option is \<open>False\<close>.
\<close>

record DllBundlesPluginOptions =
  dllDir :: string
  ignorePackageError :: bool

text \<open>
  \<open>class PackageInfo\<close>.  The fields \<open>version\<close> and \<open>error\<close> are \<open>undefined\<close> (here
  \<open>None\<close>) until a resolution assigns them.
\<close>

record PackageInfo =
  "bundle" :: string
  name :: string
  path :: string
  version :: "string option"
  error :: "js_error option"

fun new_PackageInfo :: "string \<Rightarrow> package_ref \<Rightarrow> PackageInfo" where
  "new_PackageInfo b (PkgString pkg) =
     \<lparr>bundle = b, name = pkg, path = pkg, version = None, error = None\<rparr>"
| "new_PackageInfo b (PkgConfig pkg) =
     \<lparr>bundle = b, name = pkg_name pkg, path = pkg_path pkg, version = None, error = None\<rparr>"

text \<open>
  One value of \<open>interface BundleState\<close>.  The version is optional in the model because
  \<open>saveBundleState\<close> copies \<open>pkg.version\<close> whatever it is, and \<open>JSON.stringify\<close> drops
  a field that is \<open>undefined\<close>, which reads back as \<open>undefined\<close>.
\<close>

record state_entry =
  entry_bundle :: string
  entry_version :: "string option"

text \<open>
  A \<open>BundleState\<close> object is an association list in the order \<open>Object.keys\<close> enumerates
  it, which is insertion order (package names are not array indices, which JavaScript would
  enumerate first).  Assigning a key is \<open>AList.update\<close> (in place when the key exists, at
  the end otherwise), \<open>delete\<close> is \<open>AList.delete\<close>.  Writing an object with
  \<open>JSON.stringify\<close> and loading the file gives the same keys, in the same order, with the
  same values.
\<close>

type_synonym BundleState = "(string \<times> state_entry) list"

text \<open>\<open>interface AnalyzedState\<close>; its list \<open>error\<close> is named \<open>errored\<close> here.\<close>

record AnalyzedState =
  current :: "PackageInfo list"
  changed :: "PackageInfo list"
  added :: "PackageInfo list"
  removed :: "PackageInfo list"
  errored :: "PackageInfo list"

text \<open>
  The object \<open>require\<close> returns for a \<open>package.json\<close>: the two fields the source reads,
  \<open>None\<close> when the field is absent.
\<close>

record package_json =
  json_name :: "string option"
  json_version :: "string option"

text \<open>
  The module system the resolver runs against: \<open>require.resolve(uri)\<close>,
  \<open>findRoot(file)\<close> and \<open>require(path)\<close> of a manifest.  Each throws (\<open>Inl\<close>) or returns.
\<close>

record node_env =
  require_resolve :: "string \<Rightarrow> js_error + string"
  findRoot :: "string \<Rightarrow> js_error + string"
  require_package :: "string \<Rightarrow> js_error + package_json"

text \<open>
  What the controller reads and writes outside its own objects: \<open>fs.existsSync\<close>, what
  loading a state file (reading and parsing it) returns or throws, and Node's module cache.
  \<open>require\<close> of a path returns the object in the cache when there is one, and loads the
  file otherwise; the object it returns is the cached one, so a later \<open>require\<close> of the
  same path in the same process returns that same object, with every change made to it.
  A new process starts with an empty cache.
\<close>

record node_state =
  existsSync :: "string \<Rightarrow> bool"
  load_state :: "string \<Rightarrow> js_error + BundleState"
  module_cache :: "string \<Rightarrow> BundleState option"

definition require_state :: "node_state \<Rightarrow> string \<Rightarrow> js_error + BundleState" where
  "require_state s p =
     (case module_cache s p of
        Some cached \<Rightarrow> Inr cached
      | None \<Rightarrow> load_state s p)"

definition BUNDLE_STATE_FILENAME :: string where
  "BUNDLE_STATE_FILENAME = ''dll-bundles-state.json''"

text \<open>\<open>Path.join\<close> of a directory and a file name, without Node's normalisation.\<close>

definition path_join :: "string \<Rightarrow> string \<Rightarrow> string" where
  "path_join dir file = dir @ ''/'' @ file"

section \<open>The package resolver\<close>

text \<open>JavaScript truthiness of an optional string: \<open>undefined\<close> and \<open>""\<close> are falsy.\<close>

fun truthy :: "string option \<Rightarrow> bool" where
  "truthy None = False"
| "truthy (Some s) = (s \<noteq> [])"

definition getPackageJsonPath :: "node_env \<Rightarrow> string \<Rightarrow> js_error + string" where
  "getPackageJsonPath env uri =
     (case require_resolve env uri of
        Inl err \<Rightarrow> Inl err
      | Inr file \<Rightarrow>
          (case findRoot env file of
             Inl err \<Rightarrow> Inl err
           | Inr location \<Rightarrow> Inr (path_join location ''package.json'')))"

definition getPackageJson :: "node_env \<Rightarrow> string \<Rightarrow> js_error + package_json" where
  "getPackageJson env uri =
     (case getPackageJsonPath env uri of
        Inl err \<Rightarrow> Inl err
      | Inr p \<Rightarrow>
          (case require_package env p of
             Inl err \<Rightarrow> Inl err
           | Inr pkg \<Rightarrow>
               if \<not> truthy (json_name pkg) \<or> \<not> truthy (json_version pkg)
               then Inl (Error ''Invalid package.json'')
               else Inr pkg))"

section \<open>The metadata collector\<close>

text \<open>How a template literal prints an optional string.\<close>

fun js_show :: "string option \<Rightarrow> string" where
  "js_show None = ''undefined''"
| "js_show (Some s) = s"

definition mismatch_error :: "string \<Rightarrow> string option \<Rightarrow> js_error" where
  "mismatch_error expected found =
     Error (''Package name mismatch, Expected '' @ expected @ '' but found ''
            @ js_show found @ '' '')"

text \<open>
  One promise of \<open>getMetadata\<close>: the \<open>then\<close> handler assigns the version and then compares
  the names; the \<open>catch\<close> handler stores whatever was thrown.
\<close>

definition resolve_package :: "node_env \<Rightarrow> PackageInfo \<Rightarrow> PackageInfo" where
  "resolve_package env pkgInfo =
     (case getPackageJson env (path pkgInfo) of
        Inl err \<Rightarrow> pkgInfo\<lparr>error := Some err\<rparr>
      | Inr pkgJson \<Rightarrow>
          (let pkgInfo' = pkgInfo\<lparr>version := json_version pkgJson\<rparr>
           in if Some (name pkgInfo') \<noteq> json_name pkgJson
              then pkgInfo'\<lparr>error := Some (mismatch_error (name pkgInfo') (json_name pkgJson))\<rparr>
              else pkgInfo'))"

definition flatten_bundles :: "DllBundleConfig list \<Rightarrow> PackageInfo list" where
  "flatten_bundles bundles =
     concat (map (\<lambda>b. map (new_PackageInfo (bundle_name b)) (packages b)) bundles)"

definition getMetadata :: "node_env \<Rightarrow> DllBundleConfig list \<Rightarrow> PackageInfo list" where
  "getMetadata env bundles = map (resolve_package env) (flatten_bundles bundles)"

section \<open>The state store\<close>

definition state_path :: "DllBundlesPluginOptions \<Rightarrow> string" where
  "state_path options = path_join (dllDir options) BUNDLE_STATE_FILENAME"

definition getBundleSate ::
    "node_state \<Rightarrow> DllBundlesPluginOptions \<Rightarrow> js_error + BundleState" where
  "getBundleSate s options =
     (if existsSync s (state_path options) then require_state s (state_path options)
      else Inr [])"

text \<open>The \<open>filter\<close> and \<open>reduce\<close> of \<open>saveBundleState\<close>.\<close>

definition save_entry :: "PackageInfo \<Rightarrow> BundleState \<Rightarrow> BundleState" where
  "save_entry pkg state =
     AList.update (name pkg) \<lparr>entry_bundle = bundle pkg, entry_version = version pkg\<rparr> state"

definition build_state :: "PackageInfo list \<Rightarrow> BundleState" where
  "build_state metadata = fold save_entry (filter (\<lambda>m. error m = None) metadata) []"

text \<open>
  \<open>fs.writeFileSync\<close> of the serialised state: afterwards the file exists and loading it
  gives that state.  The module cache is not touched.
\<close>

definition writeFileSync :: "string \<Rightarrow> BundleState \<Rightarrow> node_state \<Rightarrow> node_state" where
  "writeFileSync p content s =
     s\<lparr>existsSync := (existsSync s)(p := True),
       load_state := (load_state s)(p := Inr content)\<rparr>"

definition saveBundleState ::
    "node_env \<Rightarrow> DllBundleConfig list \<Rightarrow> DllBundlesPluginOptions \<Rightarrow> node_state
      \<Rightarrow> node_state" where
  "saveBundleState env bundles options s =
     writeFileSync (state_path options) (build_state (getMetadata env bundles)) s"

section \<open>The diff engine\<close>

text \<open>
  The mutable data of the \<open>forEach\<close> loop in \<open>analyzeState\<close>: the result lists, the loaded
  \<open>bundleState\<close> object and \<open>pkgCache.hist\<close>.
\<close>

record analysis =
  result :: AnalyzedState
  bundleState :: BundleState
  hist :: "string list"

definition pkgCache_del :: "PackageInfo \<Rightarrow> analysis \<Rightarrow> analysis" where
  "pkgCache_del pkgInfo a =
     a\<lparr>bundleState := AList.delete (name pkgInfo) (bundleState a),
       hist := hist a @ [name pkgInfo]\<rparr>"

definition pkgCache_deleted :: "PackageInfo \<Rightarrow> analysis \<Rightarrow> bool" where
  "pkgCache_deleted pkgInfo a = (name pkgInfo \<in> set (hist a))"

definition push_current :: "PackageInfo \<Rightarrow> analysis \<Rightarrow> analysis" where
  "push_current p a = a\<lparr>result := (result a)\<lparr>current := current (result a) @ [p]\<rparr>\<rparr>"

definition push_changed :: "PackageInfo \<Rightarrow> analysis \<Rightarrow> analysis" where
  "push_changed p a = a\<lparr>result := (result a)\<lparr>changed := changed (result a) @ [p]\<rparr>\<rparr>"

definition push_added :: "PackageInfo \<Rightarrow> analysis \<Rightarrow> analysis" where
  "push_added p a = a\<lparr>result := (result a)\<lparr>added := added (result a) @ [p]\<rparr>\<rparr>"

definition push_errored :: "PackageInfo \<Rightarrow> analysis \<Rightarrow> analysis" where
  "push_errored p a = a\<lparr>result := (result a)\<lparr>errored := errored (result a) @ [p]\<rparr>\<rparr>"

text \<open>The body of the \<open>forEach\<close>.\<close>

definition analyze_package :: "PackageInfo \<Rightarrow> analysis \<Rightarrow> analysis" where
  "analyze_package pkgInfo a =
     (if error pkgInfo \<noteq> None then pkgCache_del pkgInfo (push_errored pkgInfo a)
      else case map_of (bundleState a) (name pkgInfo) of
        Some old \<Rightarrow>
          pkgCache_del pkgInfo
            (if entry_version old = version pkgInfo then push_current pkgInfo a
             else push_changed pkgInfo a)
      | None \<Rightarrow>
          if \<not> pkgCache_deleted pkgInfo a then push_added pkgInfo a else a)"

definition empty_result :: AnalyzedState where
  "empty_result = \<lparr>current = [], changed = [], added = [], removed = [], errored = []\<rparr>"

definition analyze_loop :: "PackageInfo list \<Rightarrow> BundleState \<Rightarrow> analysis" where
  "analyze_loop pkgs state =
     fold analyze_package pkgs \<lparr>result = empty_result, bundleState = state, hist = []\<rparr>"

text \<open>The \<open>then\<close> handler of \<open>analyzeState\<close>, on the collected metadata and the loaded state.\<close>

definition analyze :: "PackageInfo list \<Rightarrow> BundleState \<Rightarrow> AnalyzedState" where
  "analyze pkgs state =
     (let a = analyze_loop pkgs state
      in (result a)\<lparr>removed :=
            map (\<lambda>(k, e). new_PackageInfo (entry_bundle e) (PkgString k)) (bundleState a)\<rparr>)"

text \<open>
  \<open>analyzeState\<close>.  When the state file exists, the \<open>bundleState\<close> the loop deletes from
  is the object in the module cache, which is left holding the entries that were not
  deleted; when the file does not exist the loop works on a fresh empty object.
\<close>

definition analyzeState ::
    "node_env \<Rightarrow> node_state \<Rightarrow> DllBundleConfig list \<Rightarrow> DllBundlesPluginOptions
      \<Rightarrow> (js_error + AnalyzedState) \<times> node_state" where
  "analyzeState env s bundles options =
     (let pkgs = getMetadata env bundles
      in case getBundleSate s options of
           Inl err \<Rightarrow> (Inl err, s)
         | Inr state \<Rightarrow>
             (Inr (analyze pkgs state),
              if existsSync s (state_path options)
              then s\<lparr>module_cache := (module_cache s)
                      (state_path options \<mapsto> bundleState (analyze_loop pkgs state))\<rparr>
              else s))"

section \<open>The rebuild decision\<close>

text \<open>
  \<open>bundleLooksValid\<close> is true when one of the two artifact files is missing: the source's
  name says the opposite of what it returns.
\<close>

definition bundleLooksValid ::
    "node_state \<Rightarrow> DllBundlesPluginOptions \<Rightarrow> string \<Rightarrow> bool" where
  "bundleLooksValid s options nm =
     (\<not> existsSync s (path_join (dllDir options) (nm @ ''.dll.js''))
      \<or> \<not> existsSync s (path_join (dllDir options) (nm @ ''-manifest.json'')))"

text \<open>\<open>bundleNames.indexOf(p.bundle) === -1 && bundleNames.push(p.bundle)\<close>\<close>

definition push_bundle :: "PackageInfo \<Rightarrow> string list \<Rightarrow> string list" where
  "push_bundle p bundleNames =
     (if bundle p \<notin> set bundleNames then bundleNames @ [bundle p] else bundleNames)"

text \<open>\<open>this.bundles.filter(bnd => bnd.name === bundleName)[0]\<close>; \<open>None\<close> is \<open>undefined\<close>.\<close>

definition lookup_bundle :: "DllBundleConfig list \<Rightarrow> string \<Rightarrow> DllBundleConfig option" where
  "lookup_bundle bundles bundleName =
     (case filter (\<lambda>bnd. bundle_name bnd = bundleName) bundles of
        [] \<Rightarrow> None
      | bnd # _ \<Rightarrow> Some bnd)"

definition rebuild_names :: "node_state \<Rightarrow> DllBundlesPluginOptions \<Rightarrow> DllBundleConfig list
      \<Rightarrow> AnalyzedState \<Rightarrow> string list" where
  "rebuild_names s options bundles analyzed =
     fold push_bundle (added analyzed @ changed analyzed @ removed analyzed @ errored analyzed)
       (filter (bundleLooksValid s options) (map bundle_name bundles))"

text \<open>
  \<open>checkBundles\<close> returns what it printed with \<open>console.error\<close>, then either the error
  the promise is rejected with or the list it resolves to, and the state it leaves.
\<close>

definition checkBundles ::
    "node_env \<Rightarrow> node_state \<Rightarrow> DllBundleConfig list \<Rightarrow> DllBundlesPluginOptions
      \<Rightarrow> (js_error option list \<times> (js_error + DllBundleConfig option list)) \<times> node_state" where
  "checkBundles env s bundles options =
     (case analyzeState env s bundles options of
        (Inl err, s') \<Rightarrow> (([], Inl err), s')
      | (Inr analyzed, s') \<Rightarrow>
          (let console = map error (errored analyzed)
           in if errored analyzed \<noteq> [] \<and> \<not> ignorePackageError options
              then ((console, Inl (Error ''DllBundlesPlugin: Some packages have errors.'')), s')
              else ((console,
                     Inr (map (lookup_bundle bundles) (rebuild_names s' options bundles analyzed))),
                    s')))"

section \<open>Messages\<close>

text \<open>
  What an error says: its message, and whether a word occurs in a message.
\<close>

fun message :: "js_error \<Rightarrow> string" where
  "message (Error m) = m"

fun starts_with :: "string \<Rightarrow> string \<Rightarrow> bool" where
  "starts_with [] s = True"
| "starts_with (c # cs) [] = False"
| "starts_with (c # cs) (d # ds) = (c = d \<and> starts_with cs ds)"

fun occurs_in :: "string \<Rightarrow> string \<Rightarrow> bool" where
  "occurs_in w [] = (w = [])"
| "occurs_in w (c # cs) = (starts_with w (c # cs) \<or> occurs_in w cs)"

section \<open>Concrete configurations\<close>

text \<open>
  A small module tree: \<open>pkgA\<close>, \<open>pkgB\<close> and two copies of \<open>pkgC\<close> at different
  versions resolve; \<open>noname\<close> and \<open>noversion\<close> have a manifest that lacks one field;
  the manifest found for \<open>other\<close> declares the name \<open>pkgX\<close>; nothing else resolves.
\<close>

definition ex_manifests :: "(string \<times> package_json) list" where
  "ex_manifests =
     [(''pkgA/package.json'', \<lparr>json_name = Some ''pkgA'', json_version = Some ''1.0.0''\<rparr>),
      (''pkgB/package.json'', \<lparr>json_name = Some ''pkgB'', json_version = Some ''2.0.0''\<rparr>),
      (''pkgC/package.json'', \<lparr>json_name = Some ''pkgC'', json_version = Some ''1.0.0''\<rparr>),
      (''lib/pkgC/package.json'', \<lparr>json_name = Some ''pkgC'', json_version = Some ''2.0.0''\<rparr>),
      (''noname/package.json'', \<lparr>json_name = None, json_version = Some ''1.0.0''\<rparr>),
      (''noversion/package.json'', \<lparr>json_name = Some ''noversion'', json_version = None\<rparr>),
      (''other/package.json'', \<lparr>json_name = Some ''pkgX'', json_version = Some ''3.0.0''\<rparr>)]"

definition ex_env :: node_env where
  "ex_env =
     \<lparr>require_resolve = (\<lambda>uri. if map_of ex_manifests (path_join uri ''package.json'') = None
                                then Inl (Error (''Cannot find module '' @ uri)) else Inr uri),
      findRoot = Inr,
      require_package = (\<lambda>p. case map_of ex_manifests p of
                                None \<Rightarrow> Inl (Error (''Cannot find module '' @ p))
                              | Some pkg \<Rightarrow> Inr pkg)\<rparr>"

definition ex_strict :: DllBundlesPluginOptions where
  "ex_strict = \<lparr>dllDir = ''dll'', ignorePackageError = False\<rparr>"

definition ex_permissive :: DllBundlesPluginOptions where
  "ex_permissive = \<lparr>dllDir = ''dll'', ignorePackageError = True\<rparr>"

text \<open>
  A new process over a \<open>dllDir\<close> that holds the artifacts of the bundles \<open>vendor\<close>
  and \<open>app\<close> and no state file, and the same with a state file left by an earlier build.
\<close>

definition ex_disk :: node_state where
  "ex_disk =
     \<lparr>existsSync = (\<lambda>p. p \<in> set [''dll/vendor.dll.js'', ''dll/vendor-manifest.json'',
                                     ''dll/app.dll.js'', ''dll/app-manifest.json'']),
      load_state = (\<lambda>p. Inl (Error (''Cannot find module '' @ p))),
      module_cache = (\<lambda>p. None)\<rparr>"

definition ex_vendor :: DllBundleConfig where
  "ex_vendor = \<lparr>bundle_name = ''vendor'', packages = [PkgString ''pkgA'']\<rparr>"

definition ex_app :: DllBundleConfig where
  "ex_app = \<lparr>bundle_name = ''app'', packages = [PkgString ''pkgB'']\<rparr>"

definition ex_bundles :: "DllBundleConfig list" where
  "ex_bundles = [ex_vendor, ex_app]"

definition ex_stale_state :: BundleState where
  "ex_stale_state =
     [(''pkgA'', \<lparr>entry_bundle = ''vendor'', entry_version = Some ''0.9.0''\<rparr>),
      (''pkgOld'', \<lparr>entry_bundle = ''legacy'', entry_version = Some ''1.0.0''\<rparr>)]"

definition ex_stale_disk :: node_state where
  "ex_stale_disk = writeFileSync (state_path ex_strict) ex_stale_state ex_disk"

text \<open>
  Bundles that declare the name \<open>pkgC\<close> more than once, a package that does not
  resolve, and a package whose manifest declares another name.
\<close>

definition ex_dup :: DllBundleConfig where
  "ex_dup = \<lparr>bundle_name = ''vendor'',
              packages = [PkgString ''pkgC'',
                          PkgConfig \<lparr>pkg_name = ''pkgC'', pkg_path = ''lib/pkgC''\<rparr>,
                          PkgConfig \<lparr>pkg_name = ''pkgC'', pkg_path = ''missing/pkgC''\<rparr>]\<rparr>"

definition ex_twice :: DllBundleConfig where
  "ex_twice = \<lparr>bundle_name = ''vendor'',
              packages = [PkgString ''pkgC'',
                          PkgConfig \<lparr>pkg_name = ''pkgC'', pkg_path = ''lib/pkgC''\<rparr>]\<rparr>"

definition ex_unresolved :: DllBundleConfig where
  "ex_unresolved = \<lparr>bundle_name = ''vendor'', packages = [PkgString ''pkgA'', PkgString ''pkgZ'']\<rparr>"

definition ex_mismatch :: DllBundleConfig where
  "ex_mismatch = \<lparr>bundle_name = ''vendor'', packages = [PkgString ''other'']\<rparr>"

text \<open>
  The descriptors these configurations resolve to.
\<close>

definition ex_pkgA :: PackageInfo where
  "ex_pkgA = \<lparr>bundle = ''vendor'', name = ''pkgA'', path = ''pkgA'',
               version = Some ''1.0.0'', error = None\<rparr>"

definition ex_pkgB :: PackageInfo where
  "ex_pkgB = \<lparr>bundle = ''app'', name = ''pkgB'', path = ''pkgB'',
               version = Some ''2.0.0'', error = None\<rparr>"

definition ex_pkgC :: PackageInfo where
  "ex_pkgC = \<lparr>bundle = ''vendor'', name = ''pkgC'', path = ''pkgC'',
               version = Some ''1.0.0'', error = None\<rparr>"

definition ex_pkgC_lib :: PackageInfo where
  "ex_pkgC_lib = \<lparr>bundle = ''vendor'', name = ''pkgC'', path = ''lib/pkgC'',
                   version = Some ''2.0.0'', error = None\<rparr>"

definition ex_pkgC_missing :: PackageInfo where
  "ex_pkgC_missing = \<lparr>bundle = ''vendor'', name = ''pkgC'', path = ''missing/pkgC'',
                   version = None, error = Some (Error ''Cannot find module missing/pkgC'')\<rparr>"

definition ex_pkgZ :: PackageInfo where
  "ex_pkgZ = \<lparr>bundle = ''vendor'', name = ''pkgZ'', path = ''pkgZ'',
               version = None, error = Some (Error ''Cannot find module pkgZ'')\<rparr>"

definition ex_pkgOld :: PackageInfo where
  "ex_pkgOld = \<lparr>bundle = ''legacy'', name = ''pkgOld'', path = ''pkgOld'',
               version = None, error = None\<rparr>"


definition ex_stale_analyzed :: AnalyzedState where
  "ex_stale_analyzed =
     \<lparr>current = [], changed = [ex_pkgA], added = [ex_pkgB], removed = [ex_pkgOld], errored = []\<rparr>"

text \<open>
  The state after a first check and a save, in one process that started without a state file.
\<close>

definition ex_saved_disk :: node_state where
  "ex_saved_disk =
     saveBundleState ex_env ex_bundles ex_strict
       (snd (checkBundles ex_env ex_disk ex_bundles ex_strict))"

section \<open>Properties of the resolver and the collector\<close>

lemma getPackageJson_unfold:
  assumes "require_resolve env uri = Inr file" and "findRoot env file = Inr location"
  shows "getPackageJson env uri =
     (case require_package env (path_join location ''package.json'') of
        Inl err \<Rightarrow> Inl err
      | Inr pkg \<Rightarrow> if truthy (json_name pkg) \<and> truthy (json_version pkg) then Inr pkg
                   else Inl (Error ''Invalid package.json''))"
  using assms by (simp add: getPackageJson_def getPackageJsonPath_def split: sum.splits)

lemma getPackageJson_Inr_truthy:
  assumes "getPackageJson env uri = Inr pkg"
  shows "truthy (json_name pkg) \<and> truthy (json_version pkg)"
  using assms by (auto simp: getPackageJson_def split: sum.splits if_splits)

lemma resolve_package_fields:
  "name (resolve_package env p) = name p \<and> path (resolve_package env p) = path p
   \<and> bundle (resolve_package env p) = bundle p"
  by (simp add: resolve_package_def Let_def split: sum.splits)

lemma new_PackageInfo_fields:
  "bundle (new_PackageInfo b r) = b \<and> version (new_PackageInfo b r) = None
   \<and> error (new_PackageInfo b r) = None"
  by (cases r) simp_all

lemma flatten_bundles_fresh:
  assumes "p \<in> set (flatten_bundles bundles)"
  shows "version p = None \<and> error p = None \<and> bundle p \<in> bundle_name ` set bundles"
  using assms by (auto simp: flatten_bundles_def new_PackageInfo_fields)

lemma resolve_package_cases:
  assumes "version p = None" and "error p = None"
  shows "(case getPackageJson env (path p) of
            Inl err \<Rightarrow> version (resolve_package env p) = None
                       \<and> error (resolve_package env p) = Some err
          | Inr pkg \<Rightarrow> version (resolve_package env p) = json_version pkg
                       \<and> json_version pkg \<noteq> None
                       \<and> (json_name pkg = Some (name p) \<longrightarrow> error (resolve_package env p) = None)
                       \<and> (json_name pkg \<noteq> Some (name p) \<longrightarrow> error (resolve_package env p) \<noteq> None))"
proof (cases "getPackageJson env (path p)")
  case (Inl err)
  with assms show ?thesis by (simp add: resolve_package_def)
next
  case (Inr pkg)
  from getPackageJson_Inr_truthy [OF Inr] have "json_version pkg \<noteq> None"
    by (cases "json_version pkg") simp_all
  with Inr assms show ?thesis by (auto simp: resolve_package_def Let_def)
qed

lemma getMetadata_bundle_declared:
  assumes "d \<in> set (getMetadata env bundles)"
  shows "bundle d \<in> bundle_name ` set bundles"
  using assms flatten_bundles_fresh by (auto simp: getMetadata_def resolve_package_fields)

section \<open>Properties of the state store\<close>

lemma map_of_save_entry:
  "map_of (save_entry p st) k =
     (if name p = k then Some \<lparr>entry_bundle = bundle p, entry_version = version p\<rparr>
      else map_of st k)"
  by (simp add: save_entry_def update_conv')

lemma map_of_fold_save_entry:
  "map_of (fold save_entry zs st) k =
     (if filter (\<lambda>m. name m = k) zs = [] then map_of st k
      else Some \<lparr>entry_bundle = bundle (last (filter (\<lambda>m. name m = k) zs)),
                entry_version = version (last (filter (\<lambda>m. name m = k) zs))\<rparr>)"
proof (induction zs rule: rev_induct)
  case Nil
  show ?case by simp
next
  case (snoc z zs)
  show ?case by (simp add: map_of_save_entry snoc.IH)
qed

lemma distinct_fold_save_entry:
  "distinct (map fst st) \<Longrightarrow> distinct (map fst (fold save_entry zs st))"
  by (induction zs arbitrary: st) (simp_all add: save_entry_def distinct_update)

lemma map_of_build_state:
  "map_of (build_state metadata) k =
     (if filter (\<lambda>m. error m = None \<and> name m = k) metadata = [] then None
      else Some \<lparr>entry_bundle = bundle (last (filter (\<lambda>m. error m = None \<and> name m = k) metadata)),
                entry_version = version (last (filter (\<lambda>m. error m = None \<and> name m = k) metadata))\<rparr>)"
proof -
  have "filter (\<lambda>m. name m = k) (filter (\<lambda>m. error m = None) metadata)
        = filter (\<lambda>m. error m = None \<and> name m = k) metadata"
    by (simp add: conj_commute)
  then show ?thesis
    unfolding build_state_def map_of_fold_save_entry by simp
qed

lemma distinct_build_state: "distinct (map fst (build_state metadata))"
  by (simp add: build_state_def distinct_fold_save_entry)

lemma in_keys_iff: "k \<in> fst ` set al \<longleftrightarrow> map_of al k \<noteq> None"
  by (simp add: map_of_eq_None_iff)

lemma build_state_keys: "fst ` set (build_state md) = name ` {m \<in> set md. error m = None}"
proof -
  have "k \<in> fst ` set (build_state md) \<longleftrightarrow> k \<in> name ` {m \<in> set md. error m = None}" for k
    unfolding in_keys_iff map_of_build_state
    by (auto simp: filter_empty_conv)
  then show ?thesis by blast
qed

lemma build_state_lookup:
  assumes "m \<in> set md" and "error m = None"
    and "\<forall>m \<in> set md. \<forall>m' \<in> set md. name m = name m' \<longrightarrow> version m = version m'"
  shows "\<exists>old. map_of (build_state md) (name m) = Some old \<and> entry_version old = version m"
proof -
  let ?ms = "filter (\<lambda>q. error q = None \<and> name q = name m) md"
  from assms(1,2) have ne: "?ms \<noteq> []" by (auto simp: filter_empty_conv)
  then have "last ?ms \<in> set ?ms" by (rule last_in_set)
  then have "last ?ms \<in> set md" "name (last ?ms) = name m" by simp_all
  with assms(1,3) have "version (last ?ms) = version m" by metis
  with ne show ?thesis unfolding map_of_build_state by simp
qed

lemma saveBundleState_content:
  "load_state (saveBundleState env bundles options d) (state_path options)
     = Inr (build_state (getMetadata env bundles))
   \<and> existsSync (saveBundleState env bundles options d) (state_path options)"
  by (simp add: saveBundleState_def writeFileSync_def)

lemma saveBundleState_other:
  "p \<noteq> state_path options \<Longrightarrow>
   existsSync (saveBundleState env bundles options d) p = existsSync d p
   \<and> load_state (saveBundleState env bundles options d) p = load_state d p"
  by (simp add: saveBundleState_def writeFileSync_def)

lemma saveBundleState_cache:
  "module_cache (saveBundleState env bundles options d) = module_cache d"
  by (simp add: saveBundleState_def writeFileSync_def)

section \<open>Properties of the diff engine\<close>

subsection \<open>One package\<close>

lemma hist_analyze_package:
  "hist (analyze_package p a) =
     (if error p \<noteq> None \<or> name p \<in> fst ` set (bundleState a) then hist a @ [name p]
      else hist a)"
  unfolding in_keys_iff
  by (auto simp: analyze_package_def pkgCache_del_def push_errored_def
      push_current_def push_changed_def push_added_def split: option.splits)

lemma bundleState_analyze_package:
  "bundleState (analyze_package p a) = AList.delete (name p) (bundleState a)"
proof (cases "error p \<noteq> None \<or> map_of (bundleState a) (name p) \<noteq> None")
  case True
  then show ?thesis
    by (auto simp: analyze_package_def pkgCache_del_def push_errored_def
      push_current_def push_changed_def split: option.splits)
next
  case False
  then have "name p \<notin> fst ` set (bundleState a)" by (simp add: in_keys_iff)
  then have "AList.delete (name p) (bundleState a) = bundleState a" by (rule delete_id)
  with False show ?thesis
    by (auto simp: analyze_package_def push_added_def split: option.splits)
qed

lemma errored_analyze_package:
  "errored (result (analyze_package p a)) =
     errored (result a) @ (if error p \<noteq> None then [p] else [])"
  by (auto simp: analyze_package_def pkgCache_del_def push_errored_def
      push_current_def push_changed_def push_added_def split: option.splits)

lemma current_analyze_package:
  "current (result (analyze_package p a)) =
     current (result a) @
       (if error p = None \<and> (\<exists>old. map_of (bundleState a) (name p) = Some old
                                    \<and> entry_version old = version p) then [p] else [])"
  by (auto simp: analyze_package_def pkgCache_del_def push_errored_def
      push_current_def push_changed_def push_added_def split: option.splits)

lemma changed_analyze_package:
  "changed (result (analyze_package p a)) =
     changed (result a) @
       (if error p = None \<and> (\<exists>old. map_of (bundleState a) (name p) = Some old
                                    \<and> entry_version old \<noteq> version p) then [p] else [])"
  by (auto simp: analyze_package_def pkgCache_del_def push_errored_def
      push_current_def push_changed_def push_added_def split: option.splits)

lemma added_analyze_package:
  "added (result (analyze_package p a)) =
     added (result a) @
       (if error p = None \<and> name p \<notin> fst ` set (bundleState a) \<and> name p \<notin> set (hist a)
        then [p] else [])"
  unfolding in_keys_iff
  by (auto simp: analyze_package_def pkgCache_del_def pkgCache_deleted_def push_errored_def
      push_current_def push_changed_def push_added_def split: option.splits)

subsection \<open>The loop\<close>

text \<open>
  The loop is a \<open>fold\<close> from the left, so its invariants are proved by induction on
  the list of packages processed so far, extended at the end.
\<close>

lemma analyze_loop_Nil:
  "analyze_loop [] st = \<lparr>result = empty_result, bundleState = st, hist = []\<rparr>"
  by (simp add: analyze_loop_def)

lemma analyze_loop_snoc:
  "analyze_loop (xs @ [x]) st = analyze_package x (analyze_loop xs st)"
  by (simp add: analyze_loop_def)

lemma map_of_filter_keys:
  "map_of (filter (\<lambda>e. fst e \<notin> S) st) k = (if k \<in> S then None else map_of st k)"
  by (induction st) auto

lemma bundleState_analyze_loop:
  "bundleState (analyze_loop xs st) = filter (\<lambda>e. fst e \<notin> name ` set xs) st"
proof (induction xs rule: rev_induct)
  case Nil
  show ?case by (simp add: analyze_loop_Nil)
next
  case (snoc x xs)
  have "AList.delete (name x) (filter (\<lambda>e. fst e \<notin> name ` set xs) st)
          = filter (\<lambda>e. fst e \<notin> name ` set (xs @ [x])) st"
    by (auto simp: AList.delete_eq intro: filter_cong)
  then show ?case
    by (simp only: analyze_loop_snoc bundleState_analyze_package snoc.IH)
qed

lemma errored_analyze_loop:
  "errored (result (analyze_loop xs st)) = filter (\<lambda>p. error p \<noteq> None) xs"
  by (induction xs rule: rev_induct)
     (simp_all add: analyze_loop_Nil analyze_loop_snoc errored_analyze_package empty_result_def)

lemma keys_analyze_loop:
  "fst ` set (bundleState (analyze_loop xs st)) = fst ` set st - name ` set xs"
  unfolding bundleState_analyze_loop by auto

lemma hist_analyze_loop:
  "set (hist (analyze_loop xs st))
     = name ` {p \<in> set xs. error p \<noteq> None \<or> name p \<in> fst ` set st}"
proof (induction xs rule: rev_induct)
  case Nil
  show ?case by (simp add: analyze_loop_Nil)
next
  case (snoc x xs)
  let ?H = "name ` {p \<in> set xs. error p \<noteq> None \<or> name p \<in> fst ` set st}"
  have split: "name ` {p \<in> set (xs @ [x]). error p \<noteq> None \<or> name p \<in> fst ` set st}
      = ?H \<union> (if error x \<noteq> None \<or> name x \<in> fst ` set st then {name x} else {})"
    by auto
  have old: "name x \<in> ?H" if "name x \<in> fst ` set st" "name x \<in> name ` set xs"
  proof -
    from that(2) obtain q where q: "q \<in> set xs" "name x = name q" by auto
    with that(1) have "q \<in> {p \<in> set xs. error p \<noteq> None \<or> name p \<in> fst ` set st}"
      by simp
    then show ?thesis unfolding q(2) by (rule imageI)
  qed
  show ?case
    unfolding split analyze_loop_snoc hist_analyze_package keys_analyze_loop
    using snoc.IH old by auto
qed

lemma find_snoc:
  "List.find P (xs @ [x]) =
     (case List.find P xs of None \<Rightarrow> (if P x then Some x else None) | Some y \<Rightarrow> Some y)"
  by (induction xs) simp_all

lemma matched_analyze_loop:
  assumes "p \<in> set (current (result (analyze_loop xs st)) @ changed (result (analyze_loop xs st)))"
  shows "error p = None \<and> name p \<in> fst ` set st
         \<and> List.find (\<lambda>q. name q = name p) xs = Some p"
  using assms
proof (induction xs rule: rev_induct)
  case Nil
  then show ?case by (simp add: analyze_loop_Nil empty_result_def)
next
  case (snoc x xs)
  let ?a = "analyze_loop xs st"
  show ?case
  proof (cases "p \<in> set (current (result ?a) @ changed (result ?a))")
    case True
    from snoc.IH [OF True] show ?thesis by (simp add: find_snoc)
  next
    case False
    with snoc.prems have px: "p = x" and ok: "error x = None"
      and key: "map_of (bundleState ?a) (name x) \<noteq> None"
      by (auto simp: analyze_loop_snoc current_analyze_package changed_analyze_package
          split: if_splits)
    from key have "name x \<in> fst ` set (bundleState ?a)" by (simp add: in_keys_iff)
    then have "name x \<in> fst ` set st" and fresh: "name x \<notin> name ` set xs"
      by (simp_all add: keys_analyze_loop)
    from fresh have "List.find (\<lambda>q. name q = name x) xs = None"
      unfolding find_None_iff by (metis imageI)
    with ok \<open>name x \<in> fst ` set st\<close> show ?thesis
      unfolding px by (simp add: find_snoc)
  qed
qed


lemma added_analyze_loop:
  assumes "p \<in> set (added (result (analyze_loop xs st)))"
  shows "error p = None \<and> name p \<notin> fst ` set st \<and> p \<in> set xs"
  using assms
proof (induction xs rule: rev_induct)
  case Nil
  then show ?case by (simp add: analyze_loop_Nil empty_result_def)
next
  case (snoc x xs)
  let ?a = "analyze_loop xs st"
  show ?case
  proof (cases "p \<in> set (added (result ?a))")
    case True
    from snoc.IH [OF True] show ?thesis by simp
  next
    case False
    with snoc.prems have px: "p = x" and ok: "error x = None"
      and nokey: "name x \<notin> fst ` set (bundleState ?a)" and nohist: "name x \<notin> set (hist ?a)"
      by (auto simp: analyze_loop_snoc added_analyze_package split: if_splits)
    have "name x \<notin> fst ` set st"
    proof
      assume inst: "name x \<in> fst ` set st"
      with nokey have "name x \<in> name ` set xs" by (simp add: keys_analyze_loop)
      then obtain q where "q \<in> set xs" "name q = name x" by auto
      with inst have "name x \<in> set (hist ?a)"
        unfolding hist_analyze_loop by force
      with nohist show False ..
    qed
    with ok show ?thesis unfolding px by simp
  qed
qed




lemma analyze_loop_unchanged:
  assumes "\<forall>p \<in> set xs. error p = None
             \<and> (\<exists>old. map_of st (name p) = Some old \<and> entry_version old = version p)"
  shows "changed (result (analyze_loop xs st)) = [] \<and> added (result (analyze_loop xs st)) = []"
  using assms
proof (induction xs rule: rev_induct)
  case Nil
  show ?case by (simp add: analyze_loop_Nil empty_result_def)
next
  case (snoc x xs)
  let ?a = "analyze_loop xs st"
  from snoc.prems obtain old where ok: "error x = None"
    and old: "map_of st (name x) = Some old" "entry_version old = version x"
    by auto
  from snoc.prems have IH: "changed (result ?a) = [] \<and> added (result ?a) = []"
    by (intro snoc.IH) simp
  have same: "entry_version old' = version x"
    if "map_of (bundleState ?a) (name x) = Some old'" for old'
    using that old unfolding bundleState_analyze_loop map_of_filter_keys
    by (simp split: if_splits)
  have seen: "name x \<in> set (hist ?a)" if "name x \<notin> fst ` set (bundleState ?a)"
  proof -
    from old(1) have key: "name x \<in> fst ` set st" by (simp add: in_keys_iff)
    with that have "name x \<in> name ` set xs" by (simp add: keys_analyze_loop)
    then obtain q where q: "q \<in> set xs" "name x = name q" by auto
    with key have "q \<in> {p \<in> set xs. error p \<noteq> None \<or> name p \<in> fst ` set st}" by simp
    then show ?thesis unfolding hist_analyze_loop q(2) by (rule imageI)
  qed
  show ?case
    unfolding analyze_loop_snoc changed_analyze_package added_analyze_package
    using IH same seen by auto
qed

subsection \<open>The analyzed state\<close>

lemma analyze_lists:
  "current (analyze pkgs st) = current (result (analyze_loop pkgs st))
   \<and> changed (analyze pkgs st) = changed (result (analyze_loop pkgs st))
   \<and> added (analyze pkgs st) = added (result (analyze_loop pkgs st))
   \<and> errored (analyze pkgs st) = errored (result (analyze_loop pkgs st))"
  by (simp add: analyze_def Let_def)

lemma removed_analyze:
  "removed (analyze pkgs st) =
     map (\<lambda>(k, e). new_PackageInfo (entry_bundle e) (PkgString k))
       (filter (\<lambda>e. fst e \<notin> name ` set pkgs) st)"
  by (simp add: analyze_def Let_def bundleState_analyze_loop)

lemma removed_names: "name ` set (removed (analyze pkgs st)) = fst ` set st - name ` set pkgs"
  unfolding removed_analyze by force

lemma classified_subset:
  "set (current (analyze pkgs st) @ changed (analyze pkgs st) @ added (analyze pkgs st)
        @ errored (analyze pkgs st)) \<subseteq> set pkgs"
proof
  fix p
  assume "p \<in> set (current (analyze pkgs st) @ changed (analyze pkgs st) @ added (analyze pkgs st)
        @ errored (analyze pkgs st))"
  then consider
      "p \<in> set (current (result (analyze_loop pkgs st)) @ changed (result (analyze_loop pkgs st)))"
    | "p \<in> set (added (result (analyze_loop pkgs st)))"
    | "p \<in> set (filter (\<lambda>p. error p \<noteq> None) pkgs)"
    by (auto simp: analyze_lists errored_analyze_loop)
  then show "p \<in> set pkgs"
  proof cases
    case 1
    from matched_analyze_loop [OF 1] show ?thesis by (auto simp: find_Some_iff)
  next
    case 2
    from added_analyze_loop [OF 2] show ?thesis by simp
  next
    case 3
    then show ?thesis by simp
  qed
qed

lemma leftover_entry_removed:
  assumes "(k, e) \<in> set st" and "k \<notin> name ` set pkgs"
  shows "new_PackageInfo (entry_bundle e) (PkgString k) \<in> set (removed (analyze pkgs st))"
proof -
  from assms have "(k, e) \<in> set (filter (\<lambda>e. fst e \<notin> name ` set pkgs) st)" by simp
  then have "(\<lambda>(k, e). new_PackageInfo (entry_bundle e) (PkgString k)) (k, e)
      \<in> set (removed (analyze pkgs st))"
    unfolding removed_analyze set_map by (rule imageI)
  then show ?thesis by simp
qed

lemma analyze_saved_state:
  assumes "\<forall>m \<in> set md. error m = None"
    and "\<forall>m \<in> set md. \<forall>m' \<in> set md. name m = name m' \<longrightarrow> version m = version m'"
  shows "changed (analyze md (build_state md)) = [] \<and> added (analyze md (build_state md)) = []
       \<and> removed (analyze md (build_state md)) = [] \<and> errored (analyze md (build_state md)) = []"
proof -
  have "\<forall>p \<in> set md. error p = None
          \<and> (\<exists>old. map_of (build_state md) (name p) = Some old \<and> entry_version old = version p)"
    using assms build_state_lookup by blast
  from analyze_loop_unchanged [OF this]
  have 1: "changed (analyze md (build_state md)) = [] \<and> added (analyze md (build_state md)) = []"
    by (simp add: analyze_lists)
  have 2: "errored (analyze md (build_state md)) = []"
    using assms(1) by (simp add: analyze_lists errored_analyze_loop filter_empty_conv)
  have "name ` set (removed (analyze md (build_state md))) = {}"
    unfolding removed_names build_state_keys by auto
  then have 3: "removed (analyze md (build_state md)) = []" by simp
  from 1 2 3 show ?thesis by simp
qed

lemma analyzeState_Inr:
  assumes "fst (analyzeState env s bundles options) = Inr analyzed"
  shows "\<exists>st. getBundleSate s options = Inr st \<and> analyzed = analyze (getMetadata env bundles) st"
  using assms by (auto simp: analyzeState_def Let_def split: sum.splits)

lemma analyzeState_loaded:
  assumes "getBundleSate s options = Inr st"
  shows "fst (analyzeState env s bundles options) = Inr (analyze (getMetadata env bundles) st)"
  using assms by (simp add: analyzeState_def Let_def)

lemma analyzeState_existsSync:
  "existsSync (snd (analyzeState env s bundles options)) = existsSync s"
  by (simp add: analyzeState_def Let_def split: sum.splits)

section \<open>Properties of the rebuild decision\<close>

lemma set_fold_push_bundle: "set (fold push_bundle ps ns) = set ns \<union> bundle ` set ps"
  by (induction ps arbitrary: ns) (auto simp: push_bundle_def)

lemma distinct_fold_push_bundle: "distinct ns \<Longrightarrow> distinct (fold push_bundle ps ns)"
  by (induction ps arbitrary: ns) (auto simp: push_bundle_def)

lemma fold_push_bundle_order:
  "fold push_bundle ps ns =
     ns @ rev (remdups (rev (filter (\<lambda>b. b \<notin> set ns) (map bundle ps))))"
proof (induction ps rule: rev_induct)
  case Nil
  show ?case by simp
next
  case (snoc p ps)
  have mem: "bundle p \<in> set (fold push_bundle ps ns) \<longleftrightarrow>
               bundle p \<in> set ns \<or> bundle p \<in> bundle ` set ps"
    by (simp add: set_fold_push_bundle)
  show ?case
  proof (cases "bundle p \<in> set ns")
    case True
    then show ?thesis using snoc.IH by (simp add: push_bundle_def mem)
  next
    case False
    then show ?thesis using snoc.IH by (auto simp: push_bundle_def mem)
  qed
qed

lemma lookup_bundle_None: "lookup_bundle bundles n = None \<longleftrightarrow> n \<notin> bundle_name ` set bundles"
proof -
  have "filter (\<lambda>bnd. bundle_name bnd = n) bundles = [] \<longleftrightarrow> n \<notin> bundle_name ` set bundles"
    by (auto simp: filter_empty_conv)
  then show ?thesis
    by (cases "filter (\<lambda>bnd. bundle_name bnd = n) bundles") (simp_all add: lookup_bundle_def)
qed

lemma lookup_bundle_Some:
  assumes "lookup_bundle bundles n = Some b"
  shows "b \<in> set bundles \<and> bundle_name b = n"
proof -
  from assms obtain bs where "filter (\<lambda>bnd. bundle_name bnd = n) bundles = b # bs"
    by (auto simp: lookup_bundle_def split: list.splits)
  then have "b \<in> set (filter (\<lambda>bnd. bundle_name bnd = n) bundles)" by simp
  then show ?thesis by simp
qed

lemma lookup_bundle_distinct:
  assumes "distinct (map bundle_name bundles)" and "b \<in> set bundles"
  shows "lookup_bundle bundles (bundle_name b) = Some b"
proof -
  from assms(2) have "lookup_bundle bundles (bundle_name b) \<noteq> None"
    by (simp add: lookup_bundle_None)
  then obtain b' where b': "lookup_bundle bundles (bundle_name b) = Some b'" by auto
  from lookup_bundle_Some [OF b'] have "b' \<in> set bundles" "bundle_name b' = bundle_name b"
    by simp_all
  with assms have "b' = b" by (meson distinct_map inj_onD)
  with b' show ?thesis by simp
qed

lemma set_rebuild_names:
  "set (rebuild_names d options bundles analyzed) =
     {n \<in> bundle_name ` set bundles. bundleLooksValid d options n}
     \<union> bundle ` set (added analyzed @ changed analyzed @ removed analyzed @ errored analyzed)"
  unfolding rebuild_names_def set_fold_push_bundle by auto

lemma rebuild_names_existsSync:
  assumes "existsSync s' = existsSync s"
  shows "rebuild_names s' options bundles analyzed = rebuild_names s options bundles analyzed"
proof -
  from assms have "bundleLooksValid s' options = bundleLooksValid s options"
    by (simp add: bundleLooksValid_def fun_eq_iff)
  then show ?thesis by (simp add: rebuild_names_def)
qed

lemma distinct_rebuild_names:
  assumes "distinct (map bundle_name bundles)"
  shows "distinct (rebuild_names d options bundles analyzed)"
  unfolding rebuild_names_def using assms
  by (intro distinct_fold_push_bundle distinct_filter)

lemma distinct_defined_bundles:
  assumes "distinct names"
  shows "distinct (filter (\<lambda>x. x \<noteq> None) (map (lookup_bundle bundles) names))"
proof -
  have inj: "inj_on (lookup_bundle bundles) {n. lookup_bundle bundles n \<noteq> None}"
  proof (rule inj_onI)
    fix n m
    assume "n \<in> {n. lookup_bundle bundles n \<noteq> None}" and eq: "lookup_bundle bundles n = lookup_bundle bundles m"
    then obtain b where b: "lookup_bundle bundles n = Some b" by auto
    with eq have b': "lookup_bundle bundles m = Some b" by simp
    from lookup_bundle_Some [OF b] lookup_bundle_Some [OF b'] show "n = m" by simp
  qed
  have "filter (\<lambda>x. x \<noteq> None) (map (lookup_bundle bundles) names)
          = map (lookup_bundle bundles) (filter (\<lambda>n. lookup_bundle bundles n \<noteq> None) names)"
    by (simp add: filter_map comp_def)
  moreover have "distinct (map (lookup_bundle bundles) (filter (\<lambda>n. lookup_bundle bundles n \<noteq> None) names))"
    unfolding distinct_map using assms inj by (auto intro: inj_on_subset)
  ultimately show ?thesis by simp
qed

lemma checkBundles_unfold:
  assumes "fst (analyzeState env s bundles options) = Inr analyzed"
  shows "fst (checkBundles env s bundles options) =
     (map error (errored analyzed),
      if errored analyzed \<noteq> [] \<and> \<not> ignorePackageError options
      then Inl (Error ''DllBundlesPlugin: Some packages have errors.'')
      else Inr (map (lookup_bundle bundles) (rebuild_names s options bundles analyzed)))"
proof -
  obtain r s' where a: "analyzeState env s bundles options = (r, s')"
    by (cases "analyzeState env s bundles options")
  with assms have r: "r = Inr analyzed" by simp
  from a have "existsSync s' = existsSync s"
    using analyzeState_existsSync [of env s bundles options] by simp
  then have "rebuild_names s' options bundles analyzed = rebuild_names s options bundles analyzed"
    by (rule rebuild_names_existsSync)
  then show ?thesis
    by (simp add: checkBundles_def a r Let_def)
qed

lemma checkBundles_Inr:
  assumes "fst (analyzeState env s bundles options) = Inr analyzed"
    and "snd (fst (checkBundles env s bundles options)) = Inr bs"
  shows "(errored analyzed = [] \<or> ignorePackageError options)
       \<and> bs = map (lookup_bundle bundles) (rebuild_names s options bundles analyzed)"
  using assms(2) unfolding checkBundles_unfold [OF assms(1)]
  by (auto split: if_splits)

lemma flagged_name_iff:
  assumes "b \<in> set bundles"
  shows "(\<exists>b'. Some b' \<in> set (map (lookup_bundle bundles) names) \<and> bundle_name b' = bundle_name b)
          \<longleftrightarrow> bundle_name b \<in> set names"
proof
  assume "\<exists>b'. Some b' \<in> set (map (lookup_bundle bundles) names) \<and> bundle_name b' = bundle_name b"
  then obtain b' where m: "Some b' \<in> lookup_bundle bundles ` set names"
    and eq: "bundle_name b' = bundle_name b"
    by auto
  from m obtain n where n: "n \<in> set names" and "Some b' = lookup_bundle bundles n" ..
  then have l: "lookup_bundle bundles n = Some b'" by simp
  from lookup_bundle_Some [OF l] eq have "n = bundle_name b" by simp
  with n show "bundle_name b \<in> set names" by simp
next
  assume n: "bundle_name b \<in> set names"
  from assms have "lookup_bundle bundles (bundle_name b) \<noteq> None"
    by (simp add: lookup_bundle_None)
  then obtain b' where l: "lookup_bundle bundles (bundle_name b) = Some b'" by auto
  from lookup_bundle_Some [OF l] have "bundle_name b' = bundle_name b" by simp
  moreover from n l have "Some b' \<in> set (map (lookup_bundle bundles) names)"
    by (metis image_eqI set_map)
  ultimately show "\<exists>b'. Some b' \<in> set (map (lookup_bundle bundles) names) \<and> bundle_name b' = bundle_name b"
    by blast
qed

lemma flagged_bundle_iff:
  assumes "b \<in> set bundles" and "distinct (map bundle_name bundles)"
  shows "Some b \<in> set (map (lookup_bundle bundles) names) \<longleftrightarrow> bundle_name b \<in> set names"
proof
  assume "Some b \<in> set (map (lookup_bundle bundles) names)"
  then have "\<exists>b'. Some b' \<in> set (map (lookup_bundle bundles) names) \<and> bundle_name b' = bundle_name b"
    by blast
  then show "bundle_name b \<in> set names" by (simp only: flagged_name_iff [OF assms(1)])
next
  assume n: "bundle_name b \<in> set names"
  from lookup_bundle_distinct [OF assms(2) assms(1)] n
  show "Some b \<in> set (map (lookup_bundle bundles) names)"
    by (metis image_eqI set_map)
qed

lemma undefined_from_removed:
  assumes "fst (analyzeState env d bundles options) = Inr analyzed"
    and "n \<in> set (rebuild_names d options bundles analyzed)"
    and "lookup_bundle bundles n = None"
  shows "\<exists>p \<in> set (removed analyzed). bundle p = n \<and> bundle p \<notin> bundle_name ` set bundles"
proof -
  from analyzeState_Inr [OF assms(1)] obtain st
    where an: "analyzed = analyze (getMetadata env bundles) st" by blast
  from assms(3) have undeclared: "n \<notin> bundle_name ` set bundles"
    by (simp add: lookup_bundle_None)
  with assms(2) obtain p
    where p: "p \<in> set (added analyzed @ changed analyzed @ removed analyzed @ errored analyzed)"
      and n: "bundle p = n"
    unfolding set_rebuild_names by auto
  have "p \<in> set (removed analyzed)"
  proof (rule ccontr)
    assume "p \<notin> set (removed analyzed)"
    with p have "p \<in> set (current analyzed @ changed analyzed @ added analyzed @ errored analyzed)"
      by auto
    with classified_subset [of "getMetadata env bundles" st]
    have "p \<in> set (getMetadata env bundles)" unfolding an by blast
    from getMetadata_bundle_declared [OF this] undeclared n show False by simp
  qed
  with n undeclared show ?thesis by blast
qed

section \<open>The concrete configurations, evaluated\<close>

lemma ex_metadata_bundles: "getMetadata ex_env ex_bundles = [ex_pkgA, ex_pkgB]"
  by code_simp

lemma ex_stale_analyzeState:
  "fst (analyzeState ex_env ex_stale_disk ex_bundles ex_strict) = Inr ex_stale_analyzed"
  by code_simp

lemma ex_stale_check:
  "snd (fst (checkBundles ex_env ex_stale_disk ex_bundles ex_strict))
     = Inr [Some ex_app, Some ex_vendor, None]"
  by code_simp

section \<open>The claims\<close>

subsection \<open>C1: how the diff engine classifies names\<close>




subsection \<open>C2: version and error of a collected descriptor\<close>

text \<open>
  Claim C2, amended.  Every descriptor the collector returns has its version or its error
  set.  When the resolver fails, the version is unset and the error is what the resolver
  threw; when the resolver returns a manifest that declares the expected name, the version is
  the manifest's and no error is set.  Version and error are both set only when the manifest
  declares another name than the expected one.
\<close>

theorem getMetadata_version_error:
  assumes "d \<in> set (getMetadata env bundles)"
  shows "(version d \<noteq> None \<or> error d \<noteq> None)
       \<and> (\<forall>err. getPackageJson env (path d) = Inl err \<longrightarrow> version d = None \<and> error d = Some err)
       \<and> (\<forall>pkg. getPackageJson env (path d) = Inr pkg \<and> json_name pkg = Some (name d)
             \<longrightarrow> version d = json_version pkg \<and> version d \<noteq> None \<and> error d = None)
       \<and> (version d \<noteq> None \<and> error d \<noteq> None
             \<longrightarrow> (\<exists>pkg. getPackageJson env (path d) = Inr pkg \<and> json_name pkg \<noteq> Some (name d)))"
proof -
  from assms obtain p where p: "p \<in> set (flatten_bundles bundles)" and d: "d = resolve_package env p"
    by (auto simp: getMetadata_def)
  from flatten_bundles_fresh [OF p] have fresh: "version p = None" "error p = None" by simp_all
  have same: "name d = name p" "path d = path p" using d by (simp_all add: resolve_package_fields)
  show ?thesis
    using resolve_package_cases [OF fresh, of env] unfolding d [symmetric] same [symmetric]
    by (cases "getPackageJson env (path d)") auto
qed

text \<open>
  The descriptor of \<open>pkgA\<close> is collected, resolved, and has a version and no error.
\<close>

theorem getMetadata_version_error_witness:
  "ex_pkgA \<in> set (getMetadata ex_env ex_bundles)
   \<and> getPackageJson ex_env (path ex_pkgA) = Inr \<lparr>json_name = Some ''pkgA'', json_version = Some ''1.0.0''\<rparr>
   \<and> version ex_pkgA = Some ''1.0.0'' \<and> error ex_pkgA = None"
proof -
  have h: "ex_pkgA \<in> set (getMetadata ex_env ex_bundles)"
    by (simp add: ex_metadata_bundles)
  have j: "getPackageJson ex_env (path ex_pkgA) = Inr \<lparr>json_name = Some ''pkgA'', json_version = Some ''1.0.0''\<rparr>"
    by code_simp
  have n: "name ex_pkgA = ''pkgA''" by (simp add: ex_pkgA_def)
  from getMetadata_version_error [OF h] j n show ?thesis using h by simp
qed

text \<open>
  The claim as first stated (exactly one of the two fields, no version after a name
  mismatch) fails: the version is assigned before the names are compared.
\<close>

theorem getMetadata_mismatch_counterexample:
  "getMetadata ex_env [ex_mismatch] =
     [\<lparr>bundle = ''vendor'', name = ''other'', path = ''other'', version = Some ''3.0.0'',
       error = Some (Error ''Package name mismatch, Expected other but found pkgX '')\<rparr>]"
  by code_simp

subsection \<open>C3: when the resolver rejects a manifest\<close>

text \<open>
  Claim C3, amended.  When the location resolves, the resolver fails exactly when no package
  root is found, or loading the manifest throws, or the manifest lacks a name or lacks a
  version (an empty string counts as lacking); a manifest that loads and lacks one of the two
  is rejected with the error \<open>Invalid package.json\<close>.
\<close>

theorem getPackageJson_fails_iff:
  assumes "require_resolve env uri = Inr file"
  shows "((\<exists>err. getPackageJson env uri = Inl err) \<longleftrightarrow>
            (\<exists>err. findRoot env file = Inl err) \<or>
            (\<exists>location. findRoot env file = Inr location \<and>
               ((\<exists>err. require_package env (path_join location ''package.json'') = Inl err) \<or>
                (\<exists>pkg. require_package env (path_join location ''package.json'') = Inr pkg \<and>
                   (\<not> truthy (json_name pkg) \<or> \<not> truthy (json_version pkg))))))
       \<and> (\<forall>location pkg.
             findRoot env file = Inr location
             \<and> require_package env (path_join location ''package.json'') = Inr pkg
             \<and> (\<not> truthy (json_name pkg) \<or> \<not> truthy (json_version pkg))
             \<longrightarrow> getPackageJson env uri = Inl (Error ''Invalid package.json''))"
proof (cases "findRoot env file")
  case (Inl err)
  with assms show ?thesis
    by (simp add: getPackageJson_def getPackageJsonPath_def)
next
  case (Inr location)
  show ?thesis
    unfolding getPackageJson_unfold [OF assms Inr] using Inr
    by (cases "require_package env (path_join location ''package.json'')") auto
qed

text \<open>
  \<open>noversion\<close> resolves, its manifest has a name and no version, and the resolver fails.
\<close>

theorem getPackageJson_fails_iff_witness:
  "require_resolve ex_env ''noversion'' = Inr ''noversion''
   \<and> findRoot ex_env ''noversion'' = Inr ''noversion''
   \<and> require_package ex_env (path_join ''noversion'' ''package.json'')
        = Inr \<lparr>json_name = Some ''noversion'', json_version = None\<rparr>
   \<and> getPackageJson ex_env ''noversion'' = Inl (Error ''Invalid package.json'')"
proof -
  have h: "require_resolve ex_env ''noversion'' = Inr ''noversion''" by code_simp
  have f: "findRoot ex_env ''noversion'' = Inr ''noversion''" by code_simp
  have r: "require_package ex_env (path_join ''noversion'' ''package.json'')
        = Inr \<lparr>json_name = Some ''noversion'', json_version = None\<rparr>" by code_simp
  from getPackageJson_fails_iff [OF h] f r
  have "getPackageJson ex_env ''noversion'' = Inl (Error ''Invalid package.json'')"
    by simp
  with h f r show ?thesis by simp
qed

text \<open>
  The claim as first stated (a manifest with at least one of the two fields is accepted)
  fails: a manifest that parses and has a version but no name is rejected.
\<close>

theorem getPackageJson_version_only_counterexample:
  "require_package ex_env (path_join ''noname'' ''package.json'')
     = Inr \<lparr>json_name = None, json_version = Some ''1.0.0''\<rparr>
   \<and> getPackageJson ex_env ''noname'' = Inl (Error ''Invalid package.json'')"
  by code_simp

subsection \<open>C4: errored packages in strict and permissive mode\<close>

text \<open>
  Claim C4, amended.  When the errored list is not empty, every errored package has its
  error set, and these errors are printed in order.  In strict mode the check is then rejected
  with the fixed error \<open>DllBundlesPlugin: Some packages have errors.\<close> and returns no list;
  in permissive mode it returns a list that holds, for every errored package, a declared
  bundle with that package's bundle name.
\<close>

theorem checkBundles_errored:
  assumes "fst (analyzeState env d bundles options) = Inr analyzed"
    and "errored analyzed \<noteq> []"
  shows "(\<forall>p \<in> set (errored analyzed). \<exists>err. error p = Some err)
       \<and> (\<not> ignorePackageError options \<longrightarrow>
            fst (checkBundles env d bundles options) =
              (map error (errored analyzed),
               Inl (Error ''DllBundlesPlugin: Some packages have errors.'')))
       \<and> (ignorePackageError options \<longrightarrow>
            (\<exists>bs. fst (checkBundles env d bundles options) = (map error (errored analyzed), Inr bs)
               \<and> (\<forall>p \<in> set (errored analyzed).
                     \<exists>b \<in> set bundles. bundle_name b = bundle p \<and> Some b \<in> set bs)))"
proof -
  from analyzeState_Inr [OF assms(1)] obtain st
    where an: "analyzed = analyze (getMetadata env bundles) st" by blast
  have err: "errored analyzed = filter (\<lambda>p. error p \<noteq> None) (getMetadata env bundles)"
    unfolding an by (simp add: analyze_lists errored_analyze_loop)
  have 1: "\<forall>p \<in> set (errored analyzed). \<exists>err. error p = Some err"
    unfolding err by auto
  have 2: "fst (checkBundles env d bundles options) =
              (map error (errored analyzed),
               Inl (Error ''DllBundlesPlugin: Some packages have errors.''))"
    if "\<not> ignorePackageError options"
    using assms(2) that unfolding checkBundles_unfold [OF assms(1)] by simp
  let ?names = "rebuild_names d options bundles analyzed"
  let ?bs = "map (lookup_bundle bundles) ?names"
  have 3: "fst (checkBundles env d bundles options) = (map error (errored analyzed), Inr ?bs)"
    if "ignorePackageError options"
    using that unfolding checkBundles_unfold [OF assms(1)] by simp
  have 4: "\<exists>b \<in> set bundles. bundle_name b = bundle p \<and> Some b \<in> set ?bs"
    if "p \<in> set (errored analyzed)" for p
  proof -
    from that have "p \<in> set (getMetadata env bundles)" unfolding err by simp
    from getMetadata_bundle_declared [OF this]
    have "lookup_bundle bundles (bundle p) \<noteq> None" by (simp add: lookup_bundle_None)
    then obtain b where b: "lookup_bundle bundles (bundle p) = Some b" by auto
    from that have "bundle p \<in> set ?names" unfolding set_rebuild_names by auto
    then have "lookup_bundle bundles (bundle p) \<in> set ?bs" unfolding set_map by (rule imageI)
    with b lookup_bundle_Some [OF b] show ?thesis by auto
  qed
  from 1 2 3 4 show ?thesis by blast
qed

text \<open>
  A bundle with one package that does not resolve, checked in both modes.
\<close>

theorem checkBundles_errored_witness:
  "fst (analyzeState ex_env ex_disk [ex_unresolved] ex_strict)
     = Inr \<lparr>current = [], changed = [], added = [ex_pkgA], removed = [], errored = [ex_pkgZ]\<rparr>
   \<and> fst (analyzeState ex_env ex_disk [ex_unresolved] ex_permissive)
     = Inr \<lparr>current = [], changed = [], added = [ex_pkgA], removed = [], errored = [ex_pkgZ]\<rparr>
   \<and> fst (checkBundles ex_env ex_disk [ex_unresolved] ex_strict)
     = ([error ex_pkgZ], Inl (Error ''DllBundlesPlugin: Some packages have errors.''))
   \<and> fst (checkBundles ex_env ex_disk [ex_unresolved] ex_permissive)
     = ([error ex_pkgZ], Inr [Some ex_unresolved])
   \<and> bundle ex_pkgZ = bundle_name ex_unresolved"
proof -
  let ?A = "\<lparr>current = [], changed = [], added = [ex_pkgA], removed = [], errored = [ex_pkgZ]\<rparr>"
  have s: "fst (analyzeState ex_env ex_disk [ex_unresolved] ex_strict) = Inr ?A" by code_simp
  have p: "fst (analyzeState ex_env ex_disk [ex_unresolved] ex_permissive) = Inr ?A" by code_simp
  have ne: "errored ?A \<noteq> []" by simp
  have strict: "\<not> ignorePackageError ex_strict" by (simp add: ex_strict_def)
  have perm: "ignorePackageError ex_permissive" by (simp add: ex_permissive_def)
  have b: "bundle ex_pkgZ = bundle_name ex_unresolved"
    by (simp add: ex_pkgZ_def ex_unresolved_def)
  from checkBundles_errored [OF s ne] strict
  have 1: "fst (checkBundles ex_env ex_disk [ex_unresolved] ex_strict)
     = ([error ex_pkgZ], Inl (Error ''DllBundlesPlugin: Some packages have errors.''))"
    by simp
  have 2: "fst (checkBundles ex_env ex_disk [ex_unresolved] ex_permissive)
     = ([error ex_pkgZ], Inr [Some ex_unresolved])"
    by code_simp
  from checkBundles_errored [OF p ne] perm 2
  have "\<forall>p \<in> set [ex_pkgZ]. \<exists>b \<in> set [ex_unresolved].
          bundle_name b = bundle p \<and> Some b \<in> set [Some ex_unresolved]"
    by simp
  with s p 1 2 b show ?thesis by simp
qed

text \<open>
  The claim as first stated (the error of the rejected check enumerates names and reasons)
  fails: the name \<open>pkgZ\<close> and its failure reason are printed, and occur nowhere in the error
  the check is rejected with.
\<close>

theorem checkBundles_strict_counterexample:
  "name ex_pkgZ = ''pkgZ'' \<and> error ex_pkgZ = Some (Error ''Cannot find module pkgZ'')
   \<and> fst (checkBundles ex_env ex_disk [ex_unresolved] ex_strict)
     = ([Some (Error ''Cannot find module pkgZ'')],
        Inl (Error ''DllBundlesPlugin: Some packages have errors.''))
   \<and> \<not> occurs_in ''pkgZ'' (message (Error ''DllBundlesPlugin: Some packages have errors.''))
   \<and> \<not> occurs_in ''Cannot find module pkgZ''
         (message (Error ''DllBundlesPlugin: Some packages have errors.''))"
  by code_simp

subsection \<open>C5: which bundles are flagged\<close>

text \<open>
  Claim C5.  When the check returns a list, a declared bundle's name is the name of a
  returned bundle if and only if one of the two artifact files \<open><dllDir>/<name>.dll.js\<close> and
  \<open><dllDir>/<name>-manifest.json\<close> is missing, or a descriptor in changed, added, removed or
  errored carries that bundle name.  When the declared names are distinct, as they are for the
  keys of the plugin's \<open>bundles\<close> option, the same holds for the declared bundle itself.
\<close>

theorem checkBundles_flags_iff:
  assumes "fst (analyzeState env d bundles options) = Inr analyzed"
    and "snd (fst (checkBundles env d bundles options)) = Inr bs"
    and "b \<in> set bundles"
  shows "((\<exists>b'. Some b' \<in> set bs \<and> bundle_name b' = bundle_name b) \<longleftrightarrow>
            \<not> existsSync d (path_join (dllDir options) (bundle_name b @ ''.dll.js''))
          \<or> \<not> existsSync d (path_join (dllDir options) (bundle_name b @ ''-manifest.json''))
          \<or> (\<exists>p \<in> set (changed analyzed @ added analyzed @ removed analyzed @ errored analyzed).
                bundle p = bundle_name b))
       \<and> (distinct (map bundle_name bundles) \<longrightarrow>
           (Some b \<in> set bs \<longleftrightarrow>
            \<not> existsSync d (path_join (dllDir options) (bundle_name b @ ''.dll.js''))
          \<or> \<not> existsSync d (path_join (dllDir options) (bundle_name b @ ''-manifest.json''))
          \<or> (\<exists>p \<in> set (changed analyzed @ added analyzed @ removed analyzed @ errored analyzed).
                bundle p = bundle_name b)))"
proof -
  let ?names = "rebuild_names d options bundles analyzed"
  let ?R = "\<not> existsSync d (path_join (dllDir options) (bundle_name b @ ''.dll.js''))
          \<or> \<not> existsSync d (path_join (dllDir options) (bundle_name b @ ''-manifest.json''))
          \<or> (\<exists>p \<in> set (changed analyzed @ added analyzed @ removed analyzed @ errored analyzed).
                bundle p = bundle_name b)"
  from checkBundles_Inr [OF assms(1,2)] have bs: "bs = map (lookup_bundle bundles) ?names"
    by simp
  have img: "n \<in> bundle ` S \<longleftrightarrow> (\<exists>p \<in> S. bundle p = n)" for n S
    by auto
  have names: "bundle_name b \<in> set ?names \<longleftrightarrow> ?R"
    unfolding set_rebuild_names bundleLooksValid_def Un_iff img using assms(3) by auto
  have 1: "(\<exists>b'. Some b' \<in> set bs \<and> bundle_name b' = bundle_name b) \<longleftrightarrow> ?R"
    unfolding bs flagged_name_iff [OF assms(3)] by (rule names)
  have 2: "Some b \<in> set bs \<longleftrightarrow> ?R" if "distinct (map bundle_name bundles)"
    unfolding bs flagged_bundle_iff [OF assms(3) that] by (rule names)
  from 1 2 show ?thesis by blast
qed

text \<open>
  \<open>vendor\<close> has both artifacts and a changed package, and is in the returned list.
\<close>

theorem checkBundles_flags_iff_witness:
  "fst (analyzeState ex_env ex_stale_disk ex_bundles ex_strict) = Inr ex_stale_analyzed
   \<and> snd (fst (checkBundles ex_env ex_stale_disk ex_bundles ex_strict))
        = Inr [Some ex_app, Some ex_vendor, None]
   \<and> ex_vendor \<in> set ex_bundles
   \<and> distinct (map bundle_name ex_bundles)
   \<and> existsSync ex_stale_disk (path_join (dllDir ex_strict) (bundle_name ex_vendor @ ''.dll.js''))
   \<and> existsSync ex_stale_disk
        (path_join (dllDir ex_strict) (bundle_name ex_vendor @ ''-manifest.json''))
   \<and> ex_pkgA \<in> set (changed ex_stale_analyzed)
   \<and> bundle ex_pkgA = bundle_name ex_vendor
   \<and> Some ex_vendor \<in> set [Some ex_app, Some ex_vendor, None]"
proof -
  have m: "ex_vendor \<in> set ex_bundles" by (simp add: ex_bundles_def)
  have dd: "distinct (map bundle_name ex_bundles)" by code_simp
  have e1: "existsSync ex_stale_disk (path_join (dllDir ex_strict) (bundle_name ex_vendor @ ''.dll.js''))"
    by code_simp
  have e2: "existsSync ex_stale_disk
        (path_join (dllDir ex_strict) (bundle_name ex_vendor @ ''-manifest.json''))"
    by code_simp
  have c: "ex_pkgA \<in> set (changed ex_stale_analyzed)" by (simp add: ex_stale_analyzed_def)
  have b: "bundle ex_pkgA = bundle_name ex_vendor" by (simp add: ex_pkgA_def ex_vendor_def)
  from c b have "\<exists>p \<in> set (changed ex_stale_analyzed @ added ex_stale_analyzed
                  @ removed ex_stale_analyzed @ errored ex_stale_analyzed).
                bundle p = bundle_name ex_vendor"
    by auto
  with checkBundles_flags_iff [OF ex_stale_analyzeState ex_stale_check m] dd
  have "Some ex_vendor \<in> set [Some ex_app, Some ex_vendor, None]" by blast
  with ex_stale_analyzeState ex_stale_check m dd e1 e2 c b show ?thesis by blast
qed

subsection \<open>C6: shape and order of the rebuild list\<close>

text \<open>
  Claim C6, amended.  When the check returns a list, it holds first the bundles with a
  missing artifact, in declaration order, and then the other bundles in the order in which
  the descriptors of added, changed, removed and errored first name them.  Each element is a
  declared bundle or is undefined, and it is undefined only for a removed record whose bundle
  is not declared; if the bundle of every removed record is declared, the list is a subset of
  the declared bundles.  When the declared names are distinct, no bundle is listed twice.
\<close>

theorem checkBundles_rebuild_list:
  assumes "fst (analyzeState env d bundles options) = Inr analyzed"
    and "snd (fst (checkBundles env d bundles options)) = Inr bs"
  shows "(let invalid = filter (bundleLooksValid d options) (map bundle_name bundles);
              diff = map bundle (added analyzed @ changed analyzed @ removed analyzed
                                 @ errored analyzed)
          in bs = map (lookup_bundle bundles)
                    (invalid @ rev (remdups (rev (filter (\<lambda>n. n \<notin> set invalid) diff)))))
       \<and> (\<forall>x \<in> set bs. case x of
             Some b \<Rightarrow> b \<in> set bundles
           | None \<Rightarrow> (\<exists>p \<in> set (removed analyzed). bundle p \<notin> bundle_name ` set bundles))
       \<and> ((\<forall>p \<in> set (removed analyzed). bundle p \<in> bundle_name ` set bundles)
             \<longrightarrow> set bs \<subseteq> Some ` set bundles)
       \<and> (distinct (map bundle_name bundles) \<longrightarrow> distinct (filter (\<lambda>x. x \<noteq> None) bs))"
proof -
  let ?names = "rebuild_names d options bundles analyzed"
  from checkBundles_Inr [OF assms] have bs: "bs = map (lookup_bundle bundles) ?names"
    by simp
  have 1: "(let invalid = filter (bundleLooksValid d options) (map bundle_name bundles);
              diff = map bundle (added analyzed @ changed analyzed @ removed analyzed
                                 @ errored analyzed)
          in bs = map (lookup_bundle bundles)
                    (invalid @ rev (remdups (rev (filter (\<lambda>n. n \<notin> set invalid) diff)))))"
    unfolding bs rebuild_names_def fold_push_bundle_order Let_def ..
  have 2: "case x of Some b \<Rightarrow> b \<in> set bundles
           | None \<Rightarrow> (\<exists>p \<in> set (removed analyzed). bundle p \<notin> bundle_name ` set bundles)"
    if "x \<in> set bs" for x
  proof -
    from that obtain n where n: "n \<in> set ?names" and x: "x = lookup_bundle bundles n"
      unfolding bs by auto
    show ?thesis
    proof (cases x)
      case None
      with x undefined_from_removed [OF assms(1) n] show ?thesis by auto
    next
      case (Some b)
      with x have l: "lookup_bundle bundles n = Some b" by simp
      from lookup_bundle_Some [OF l] show ?thesis unfolding Some by simp
    qed
  qed
  have 3: "set bs \<subseteq> Some ` set bundles"
    if "\<forall>p \<in> set (removed analyzed). bundle p \<in> bundle_name ` set bundles"
  proof
    fix x assume "x \<in> set bs"
    from 2 [OF this] that show "x \<in> Some ` set bundles"
      by (cases x) auto
  qed
  have 4: "distinct (filter (\<lambda>x. x \<noteq> None) bs)" if "distinct (map bundle_name bundles)"
    unfolding bs using distinct_rebuild_names [OF that] by (rule distinct_defined_bundles)
  from 1 2 3 4 show ?thesis by blast
qed

text \<open>
  A first check of \<open>vendor\<close> and \<open>app\<close> with no state file returns both, once each.
\<close>

theorem checkBundles_rebuild_list_witness:
  "fst (analyzeState ex_env ex_disk ex_bundles ex_strict)
     = Inr \<lparr>current = [], changed = [], added = [ex_pkgA, ex_pkgB], removed = [], errored = []\<rparr>
   \<and> snd (fst (checkBundles ex_env ex_disk ex_bundles ex_strict)) = Inr [Some ex_vendor, Some ex_app]
   \<and> distinct (map bundle_name ex_bundles)
   \<and> set [Some ex_vendor, Some ex_app] \<subseteq> Some ` set ex_bundles
   \<and> distinct (filter (\<lambda>x. x \<noteq> None) [Some ex_vendor, Some ex_app])"
proof -
  let ?A = "\<lparr>current = [], changed = [], added = [ex_pkgA, ex_pkgB], removed = [], errored = []\<rparr>"
  have a: "fst (analyzeState ex_env ex_disk ex_bundles ex_strict) = Inr ?A" by code_simp
  have c: "snd (fst (checkBundles ex_env ex_disk ex_bundles ex_strict)) = Inr [Some ex_vendor, Some ex_app]"
    by code_simp
  have dd: "distinct (map bundle_name ex_bundles)" by code_simp
  have r: "\<forall>p \<in> set (removed ?A). bundle p \<in> bundle_name ` set ex_bundles" by simp
  from checkBundles_rebuild_list [OF a c] dd r
  have "set [Some ex_vendor, Some ex_app] \<subseteq> Some ` set ex_bundles
      \<and> distinct (filter (\<lambda>x. x \<noteq> None) [Some ex_vendor, Some ex_app])"
    by blast
  with a c dd show ?thesis by blast
qed

text \<open>
  The claim as first stated (a subset of the declared bundles, in declaration order) fails:
  \<open>vendor\<close> is declared before \<open>app\<close>, the package of \<open>vendor\<close> is changed and that of
  \<open>app\<close> is added, and a persisted package belongs to a bundle that is no longer declared.
\<close>

theorem checkBundles_order_counterexample:
  "ex_bundles = [ex_vendor, ex_app]
   \<and> snd (fst (checkBundles ex_env ex_stale_disk ex_bundles ex_strict))
        = Inr [Some ex_app, Some ex_vendor, None]"
  by code_simp

subsection \<open>C7: a check after a save\<close>

text \<open>
  Claim C7, amended.  If every package resolves without error, descriptors that share a
  name have the same version, the module cache holds no state object before the save (a new
  process, or a process whose first check found no state file), and all bundle artifacts are
  on disk after the save, then the check that follows the save prints nothing and returns the
  empty list.
\<close>

theorem check_after_save_empty:
  assumes "\<forall>m \<in> set (getMetadata env bundles). error m = None"
    and "\<forall>m \<in> set (getMetadata env bundles). \<forall>m' \<in> set (getMetadata env bundles).
           name m = name m' \<longrightarrow> version m = version m'"
    and "module_cache s (state_path options) = None"
    and "\<forall>b \<in> set bundles.
           existsSync (saveBundleState env bundles options s)
             (path_join (dllDir options) (bundle_name b @ ''.dll.js''))
         \<and> existsSync (saveBundleState env bundles options s)
             (path_join (dllDir options) (bundle_name b @ ''-manifest.json''))"
  shows "fst (checkBundles env (saveBundleState env bundles options s) bundles options)
           = ([], Inr [])"
proof -
  let ?s = "saveBundleState env bundles options s"
  let ?md = "getMetadata env bundles"
  let ?an = "analyze ?md (build_state ?md)"
  have "module_cache ?s (state_path options) = None"
    unfolding saveBundleState_cache by (rule assms(3))
  moreover have "load_state ?s (state_path options) = Inr (build_state ?md)"
    and "existsSync ?s (state_path options)"
    using saveBundleState_content [of env bundles options s] by simp_all
  ultimately have "getBundleSate ?s options = Inr (build_state ?md)"
    by (simp add: getBundleSate_def require_state_def)
  then have an: "fst (analyzeState env ?s bundles options) = Inr ?an"
    by (rule analyzeState_loaded)
  from analyze_saved_state [OF assms(1,2)]
  have lists: "changed ?an = []" "added ?an = []" "removed ?an = []" "errored ?an = []"
    by simp_all
  have "filter (bundleLooksValid ?s options) (map bundle_name bundles) = []"
    using assms(4) by (auto simp: filter_empty_conv bundleLooksValid_def)
  then have "rebuild_names ?s options bundles ?an = []"
    by (simp add: rebuild_names_def lists)
  then show ?thesis
    unfolding checkBundles_unfold [OF an] by (simp add: lists)
qed

text \<open>
  \<open>vendor\<close> and \<open>app\<close>, starting without a state file: the first check returns both
  bundles and caches nothing, the check after the save returns none.
\<close>

theorem check_after_save_empty_witness:
  "getMetadata ex_env ex_bundles = [ex_pkgA, ex_pkgB]
   \<and> error ex_pkgA = None \<and> error ex_pkgB = None
   \<and> fst (checkBundles ex_env ex_disk ex_bundles ex_strict)
        = ([], Inr [Some ex_vendor, Some ex_app])
   \<and> module_cache (snd (checkBundles ex_env ex_disk ex_bundles ex_strict)) (state_path ex_strict)
        = None
   \<and> existsSync ex_saved_disk ''dll/vendor.dll.js''
   \<and> existsSync ex_saved_disk ''dll/vendor-manifest.json''
   \<and> existsSync ex_saved_disk ''dll/app.dll.js''
   \<and> existsSync ex_saved_disk ''dll/app-manifest.json''
   \<and> fst (checkBundles ex_env ex_saved_disk ex_bundles ex_strict) = ([], Inr [])"
proof -
  let ?s1 = "snd (checkBundles ex_env ex_disk ex_bundles ex_strict)"
  have s2: "ex_saved_disk = saveBundleState ex_env ex_bundles ex_strict ?s1"
    by (simp add: ex_saved_disk_def)
  have md: "getMetadata ex_env ex_bundles = [ex_pkgA, ex_pkgB]" by code_simp
  have e: "error ex_pkgA = None \<and> error ex_pkgB = None" by code_simp
  have n: "name ex_pkgA \<noteq> name ex_pkgB" by code_simp
  have first: "fst (checkBundles ex_env ex_disk ex_bundles ex_strict)
        = ([], Inr [Some ex_vendor, Some ex_app])"
    by code_simp
  have cold: "module_cache ?s1 (state_path ex_strict) = None" by code_simp
  have f: "existsSync ex_saved_disk ''dll/vendor.dll.js''
   \<and> existsSync ex_saved_disk ''dll/vendor-manifest.json''
   \<and> existsSync ex_saved_disk ''dll/app.dll.js''
   \<and> existsSync ex_saved_disk ''dll/app-manifest.json''"
    by code_simp
  have h1: "\<forall>m \<in> set (getMetadata ex_env ex_bundles). error m = None"
    using e by (simp add: md)
  have h2: "\<forall>m \<in> set (getMetadata ex_env ex_bundles). \<forall>m' \<in> set (getMetadata ex_env ex_bundles).
           name m = name m' \<longrightarrow> version m = version m'"
    using n by (auto simp: md)
  have h3: "\<forall>b \<in> set ex_bundles.
           existsSync (saveBundleState ex_env ex_bundles ex_strict ?s1)
             (path_join (dllDir ex_strict) (bundle_name b @ ''.dll.js''))
         \<and> existsSync (saveBundleState ex_env ex_bundles ex_strict ?s1)
             (path_join (dllDir ex_strict) (bundle_name b @ ''-manifest.json''))"
    using f unfolding s2
    by (simp add: ex_bundles_def ex_vendor_def ex_app_def ex_strict_def path_join_def)
  from check_after_save_empty [OF h1 h2 cold h3]
  have "fst (checkBundles ex_env ex_saved_disk ex_bundles ex_strict) = ([], Inr [])"
    unfolding s2 .
  with md e first cold f show ?thesis by simp
qed

text \<open>
  The claim as first stated (for every configuration) fails with all artifacts on disk:
  for a package that does not resolve, which is never saved (permissive mode); for a name
  declared twice with two versions, where the save keeps the last and the check compares the
  first; and, in one process, when the first check loaded a state file, because the second
  check is handed the cached object from which the first check deleted.
\<close>

theorem check_after_save_counterexample:
  "fst (checkBundles ex_env
          (saveBundleState ex_env [ex_unresolved] ex_permissive
             (snd (checkBundles ex_env ex_disk [ex_unresolved] ex_permissive)))
          [ex_unresolved] ex_permissive)
     = ([Some (Error ''Cannot find module pkgZ'')], Inr [Some ex_unresolved])
   \<and> fst (checkBundles ex_env
          (saveBundleState ex_env [ex_twice] ex_strict
             (snd (checkBundles ex_env ex_disk [ex_twice] ex_strict)))
          [ex_twice] ex_strict)
     = ([], Inr [Some ex_twice])
   \<and> fst (checkBundles ex_env
          (saveBundleState ex_env ex_bundles ex_strict
             (snd (checkBundles ex_env ex_stale_disk ex_bundles ex_strict)))
          ex_bundles ex_strict)
     = ([], Inr [Some ex_vendor, Some ex_app, None])
   \<and> existsSync ex_disk ''dll/vendor.dll.js'' \<and> existsSync ex_disk ''dll/vendor-manifest.json''
   \<and> existsSync ex_disk ''dll/app.dll.js'' \<and> existsSync ex_disk ''dll/app-manifest.json''
   \<and> existsSync ex_stale_disk ''dll/vendor.dll.js''
   \<and> existsSync ex_stale_disk ''dll/vendor-manifest.json''
   \<and> existsSync ex_stale_disk ''dll/app.dll.js''
   \<and> existsSync ex_stale_disk ''dll/app-manifest.json''"
  by code_simp

subsection \<open>C8: what a save writes\<close>

text \<open>
  Claim C8, amended.  \<open>saveBundleState\<close> leaves at the state path a file that holds the
  state built from the descriptors without error: its keys are distinct, the entry of a name
  is the bundle and version of the last descriptor without error that declares the name, and
  every entry comes from a descriptor without error.  A name that only errored descriptors
  declare is not a key of the written state; a name that an errored descriptor shares with
  a descriptor without error is written, from the latter.  The content written does not
  depend on what the file held before, and no other file changes.
\<close>

theorem saveBundleState_writes_non_errored:
  "\<exists>st. load_state (saveBundleState env bundles options d) (state_path options) = Inr st
      \<and> existsSync (saveBundleState env bundles options d) (state_path options)
      \<and> st = build_state (getMetadata env bundles)
      \<and> distinct (map fst st)
      \<and> (\<forall>k. map_of st k =
            (case filter (\<lambda>m. error m = None \<and> name m = k) (getMetadata env bundles) of
               [] \<Rightarrow> None
             | m # ms \<Rightarrow> Some \<lparr>entry_bundle = bundle (last (m # ms)),
                               entry_version = version (last (m # ms))\<rparr>))
      \<and> (\<forall>k e. (k, e) \<in> set st \<longrightarrow>
            (\<exists>m \<in> set (getMetadata env bundles).
               error m = None \<and> name m = k \<and> entry_bundle e = bundle m \<and> entry_version e = version m))
      \<and> (\<forall>k. (\<forall>m \<in> set (getMetadata env bundles). name m = k \<longrightarrow> error m \<noteq> None)
            \<longrightarrow> k \<notin> fst ` set st)
      \<and> (\<forall>p. p \<noteq> state_path options \<longrightarrow>
            existsSync (saveBundleState env bundles options d) p = existsSync d p
            \<and> load_state (saveBundleState env bundles options d) p = load_state d p)"
proof -
  let ?md = "getMetadata env bundles"
  let ?st = "build_state ?md"
  have lookup: "map_of ?st k =
            (case filter (\<lambda>m. error m = None \<and> name m = k) ?md of
               [] \<Rightarrow> None
             | m # ms \<Rightarrow> Some \<lparr>entry_bundle = bundle (last (m # ms)),
                               entry_version = version (last (m # ms))\<rparr>)" for k
    unfolding map_of_build_state by (cases "filter (\<lambda>m. error m = None \<and> name m = k) ?md") simp_all
  have origin: "\<exists>m \<in> set ?md. error m = None \<and> name m = k
                  \<and> entry_bundle e = bundle m \<and> entry_version e = version m"
    if "(k, e) \<in> set ?st" for k e
  proof -
    let ?ms = "filter (\<lambda>m. error m = None \<and> name m = k) ?md"
    from that have look: "map_of ?st k = Some e"
      by (simp add: distinct_build_state)
    then have ne: "?ms \<noteq> []" and e: "e = \<lparr>entry_bundle = bundle (last ?ms), entry_version = version (last ?ms)\<rparr>"
      unfolding map_of_build_state by (simp_all split: if_splits)
    from ne have "last ?ms \<in> set ?ms" by (rule last_in_set)
    then have "last ?ms \<in> set ?md \<and> error (last ?ms) = None \<and> name (last ?ms) = k" by simp
    with e show ?thesis by auto
  qed
  have other: "\<forall>p. p \<noteq> state_path options \<longrightarrow>
            existsSync (saveBundleState env bundles options d) p = existsSync d p
            \<and> load_state (saveBundleState env bundles options d) p = load_state d p"
    using saveBundleState_other [of _ options env bundles d] by blast
  have absent: "k \<notin> fst ` set ?st"
    if "\<forall>m \<in> set ?md. name m = k \<longrightarrow> error m \<noteq> None" for k
  proof -
    from that have "filter (\<lambda>m. error m = None \<and> name m = k) ?md = []"
      by (auto simp: filter_empty_conv)
    then have "map_of ?st k = None" unfolding map_of_build_state by simp
    then show ?thesis by (simp add: map_of_eq_None_iff)
  qed
  show ?thesis
    using saveBundleState_content [of env bundles options d] distinct_build_state [of ?md]
      lookup origin absent other
    by blast
qed

text \<open>
  Saving over an older state file, with one package that resolves and one that does not:
  only the first is written.
\<close>

theorem saveBundleState_writes_non_errored_witness:
  "getMetadata ex_env [ex_unresolved] = [ex_pkgA, ex_pkgZ]
   \<and> load_state (saveBundleState ex_env [ex_unresolved] ex_strict ex_stale_disk)
        (state_path ex_strict)
      = Inr [(''pkgA'', \<lparr>entry_bundle = ''vendor'', entry_version = Some ''1.0.0''\<rparr>)]
   \<and> error ex_pkgZ = Some (Error ''Cannot find module pkgZ'')
   \<and> ''pkgZ'' \<notin> fst ` set [(''pkgA'', \<lparr>entry_bundle = ''vendor'', entry_version = Some ''1.0.0''\<rparr>)]"
proof -
  have md: "getMetadata ex_env [ex_unresolved] = [ex_pkgA, ex_pkgZ]" by code_simp
  have st: "build_state [ex_pkgA, ex_pkgZ]
     = [(''pkgA'', \<lparr>entry_bundle = ''vendor'', entry_version = Some ''1.0.0''\<rparr>)]"
    by code_simp
  from saveBundleState_writes_non_errored [of ex_env "[ex_unresolved]" ex_strict ex_stale_disk]
  obtain s where "load_state (saveBundleState ex_env [ex_unresolved] ex_strict ex_stale_disk)
        (state_path ex_strict) = Inr s" and "s = build_state (getMetadata ex_env [ex_unresolved])"
    by blast
  moreover have "error ex_pkgZ = Some (Error ''Cannot find module pkgZ'')" by code_simp
  ultimately show ?thesis using md st by simp
qed

text \<open>
  The claim as first stated (no errored package ever appears in the written state) fails
  when it is read by name, the only key of the state: \<open>pkgC\<close> is declared three times, the
  third declaration does not resolve and is in the errored list, and \<open>pkgC\<close> is written.
\<close>

theorem saveBundleState_shared_name_counterexample:
  "getMetadata ex_env [ex_dup] = [ex_pkgC, ex_pkgC_lib, ex_pkgC_missing]
   \<and> name ex_pkgC_missing = ''pkgC''
   \<and> error ex_pkgC_missing = Some (Error ''Cannot find module missing/pkgC'')
   \<and> errored (analyze (getMetadata ex_env [ex_dup]) []) = [ex_pkgC_missing]
   \<and> load_state (saveBundleState ex_env [ex_dup] ex_strict ex_disk) (state_path ex_strict)
        = Inr [(''pkgC'', \<lparr>entry_bundle = ''vendor'', entry_version = Some ''2.0.0''\<rparr>)]"
  by code_simp

subsection \<open>C9: a persisted bundle that is no longer declared\<close>

text \<open>
  Claim C9.  If the loaded state has an entry whose bundle is not declared and whose name no
  descriptor declares, and the check returns a list, then the removed record made from the
  entry is in the removed list, looking its bundle up among the declared bundles finds
  nothing, and the returned list holds an undefined element.
\<close>

theorem checkBundles_undefined_element:
  assumes "getBundleSate d options = Inr st"
    and "(k, e) \<in> set st"
    and "entry_bundle e \<notin> bundle_name ` set bundles"
    and "k \<notin> name ` set (getMetadata env bundles)"
    and "snd (fst (checkBundles env d bundles options)) = Inr bs"
  shows "new_PackageInfo (entry_bundle e) (PkgString k)
           \<in> set (removed (analyze (getMetadata env bundles) st))
       \<and> lookup_bundle bundles (entry_bundle e) = None
       \<and> None \<in> set bs"
proof -
  let ?analyzed = "analyze (getMetadata env bundles) st"
  let ?p = "new_PackageInfo (entry_bundle e) (PkgString k)"
  have an: "fst (analyzeState env d bundles options) = Inr ?analyzed"
    using assms(1) by (rule analyzeState_loaded)
  from checkBundles_Inr [OF an assms(5)]
  have bs: "bs = map (lookup_bundle bundles) (rebuild_names d options bundles ?analyzed)"
    by simp
  have rem: "?p \<in> set (removed ?analyzed)"
    using assms(2,4) by (rule leftover_entry_removed)
  then have "bundle ?p \<in> bundle ` set (removed ?analyzed)" by (rule imageI)
  then have n: "entry_bundle e \<in> set (rebuild_names d options bundles ?analyzed)"
    unfolding set_rebuild_names by (simp add: image_Un)
  have none: "lookup_bundle bundles (entry_bundle e) = None"
    using assms(3) by (simp add: lookup_bundle_None)
  from n have "lookup_bundle bundles (entry_bundle e) \<in> set bs"
    unfolding bs set_map by (rule imageI)
  with none rem show ?thesis by simp
qed

text \<open>
  The state file left by an earlier build records \<open>pkgOld\<close> in the bundle \<open>legacy\<close>.
\<close>

theorem checkBundles_undefined_element_witness:
  "getBundleSate ex_stale_disk ex_strict = Inr ex_stale_state
   \<and> (''pkgOld'', \<lparr>entry_bundle = ''legacy'', entry_version = Some ''1.0.0''\<rparr>) \<in> set ex_stale_state
   \<and> ''legacy'' \<notin> bundle_name ` set ex_bundles
   \<and> ''pkgOld'' \<notin> name ` set (getMetadata ex_env ex_bundles)
   \<and> snd (fst (checkBundles ex_env ex_stale_disk ex_bundles ex_strict))
        = Inr [Some ex_app, Some ex_vendor, None]
   \<and> None \<in> set [Some ex_app, Some ex_vendor, None]"
proof -
  let ?e = "\<lparr>entry_bundle = ''legacy'', entry_version = Some ''1.0.0''\<rparr>"
  have 1: "getBundleSate ex_stale_disk ex_strict = Inr ex_stale_state" by code_simp
  have 2: "(''pkgOld'', ?e) \<in> set ex_stale_state" by code_simp
  have 3: "entry_bundle ?e \<notin> bundle_name ` set ex_bundles" by code_simp
  have 4: "''pkgOld'' \<notin> name ` set (getMetadata ex_env ex_bundles)" by code_simp
  have 5: "snd (fst (checkBundles ex_env ex_stale_disk ex_bundles ex_strict))
        = Inr [Some ex_app, Some ex_vendor, None]" by code_simp
  from checkBundles_undefined_element [OF 1 2 3 4 5] 1 2 3 4 5 show ?thesis by simp
qed

subsection \<open>C10: the last occurrence of a name is saved\<close>



end
